theory Spec2Isabelle
  imports Main "HOL-Library.Sublist" "HOL-Library.Char_ord" "HOL-Library.List_Lexorder"
    "HOL-Library.Product_Lexorder"
begin

section \<open>Data model\<close>

text \<open>
  The script handles workflow runs and jobs as the dictionaries the provider's JSON
  holds. Every field the script reads with \<^verbatim>\<open>.get\<close> is optional here
  (\<^verbatim>\<open>None\<close> when the key is missing or null); the run identifier is read
  with a subscript (\<^verbatim>\<open>r["id"]\<close>) and is a plain field: every workflow run of
  the provider carries one.
\<close>

record job =
  job_status :: "string option"
  job_runner_name :: "string option"

record workflow_run =
  run_id :: int
  run_name :: "string option"
  run_workflow_id :: "int option"
  run_head_branch :: "string option"
  run_head_sha :: "string option"
  run_event :: "string option"
  run_status :: "string option"
  run_conclusion :: "string option"
  run_created_at :: "string option"
  run_run_started_at :: "string option"
  run_updated_at :: "string option"
  run_actor :: "string option option"
  run_html_url :: "string option"

text \<open>The reason codes \<^verbatim>\<open>infer_queued_reason\<close> returns as strings.\<close>

datatype queued_reason = no_available_runner | runner_capacity | unknown_or_concurrency

section \<open>The queued-reason heuristic\<close>

text \<open>
  Python's truth value of \<^verbatim>\<open>job.get("runner_name")\<close>: a missing or null name
  and the empty string are falsy.
\<close>

definition truthy_str :: "string option \<Rightarrow> bool" where
  "truthy_str v = (case v of None \<Rightarrow> False | Some s \<Rightarrow> s \<noteq> [])"

text \<open>
  The generator expression both \<^verbatim>\<open>all\<close> and \<^verbatim>\<open>any\<close> range over:
  \<^verbatim>\<open>job.get("status") == "queued" and not job.get("runner_name")\<close>.
\<close>

definition awaiting :: "job \<Rightarrow> bool" where
  "awaiting j = (job_status j = Some ''queued'' \<and> \<not> truthy_str (job_runner_name j))"

text \<open>
  \<^verbatim>\<open>
  def infer_queued_reason(run, jobs):
      if run.get("status") == "queued":
          if jobs:
              all_awaiting = all(... for job in jobs)
              if all_awaiting:
                  return "no_available_runner"
              if any(... for job in jobs):
                  return "runner_capacity"
          return "unknown_or_concurrency"
      return None
  \<close>
\<close>

definition infer_queued_reason :: "workflow_run \<Rightarrow> job list \<Rightarrow> queued_reason option" where
  "infer_queued_reason run jobs =
     (if run_status run = Some ''queued'' then
        (if jobs \<noteq> [] then
           (let all_awaiting = list_all awaiting jobs in
            if all_awaiting then Some no_available_runner
            else if list_ex awaiting jobs then Some runner_capacity
            else Some unknown_or_concurrency)
         else Some unknown_or_concurrency)
      else None)"

section \<open>Fetching JSON with rate-limit handling\<close>

text \<open>
  The exceptions the script can raise, as values. \<open>HTTPStatusError\<close> is what
  \<^verbatim>\<open>r.raise_for_status()\<close> raises; it carries the response, of which the
  status code and the body text are kept.
\<close>

datatype error =
    HTTPStatusError int string
  | ValueError
  | JSONDecodeError
  | KeyError
  | AttributeError

text \<open>
  The value of the \<^verbatim>\<open>X-RateLimit-Reset\<close> header, by what the script does with
  it: the empty string is falsy (\<^verbatim>\<open>if reset:\<close>), \<^verbatim>\<open>int(reset)\<close> either
  yields an integer or raises \<^verbatim>\<open>ValueError\<close>.
\<close>

datatype reset_header = Reset_int int | Reset_bad | Reset_empty

text \<open>
  A response, by the parts \<^verbatim>\<open>get_json\<close> reads: \<^verbatim>\<open>r.status_code\<close>,
  \<^verbatim>\<open>r.text\<close>, \<^verbatim>\<open>r.headers.get("X-RateLimit-Reset")\<close> and
  \<^verbatim>\<open>r.json()\<close> (\<open>None\<close> when the body is not JSON and decoding raises).
\<close>

record 'j response =
  status_code :: int
  resp_text :: string
  x_ratelimit_reset :: "reset_header option"
  json_body :: "'j option"

text \<open>
  A request is the url and the query parameters: \<^verbatim>\<open>{"per_page": .., "page": ..}\<close>
  for a page of runs, \<^verbatim>\<open>None\<close> for the jobs of a run.
\<close>

record params =
  param_per_page :: int
  param_page :: int

record request =
  req_url :: string
  req_params :: "params option"

text \<open>What a call of \<^verbatim>\<open>get_json\<close> does to the world, in order.\<close>

datatype event = Get request | Sleep int

text \<open>\<^verbatim>\<open>"rate limit" in (r.text or "").lower()\<close>, on ASCII text.\<close>

definition lower_char :: "char \<Rightarrow> char" where
  "lower_char c =
     (case map_of (zip ''ABCDEFGHIJKLMNOPQRSTUVWXYZ'' ''abcdefghijklmnopqrstuvwxyz'') c of
        None \<Rightarrow> c
      | Some d \<Rightarrow> d)"

definition lower :: "string \<Rightarrow> string" where
  "lower s = map lower_char s"

definition rate_limit_text :: "string \<Rightarrow> bool" where
  "rate_limit_text s = sublist ''rate limit'' (lower s)"

text \<open>
  \<^verbatim>\<open>r.raise_for_status()\<close> raises for every status that is not a success
  (2xx).
\<close>

definition raise_for_status :: "'j response \<Rightarrow> error + unit" where
  "raise_for_status r =
     (if 200 \<le> status_code r \<and> status_code r \<le> 299 then Inr ()
      else Inl (HTTPStatusError (status_code r) (resp_text r)))"

text \<open>The last two lines of \<^verbatim>\<open>get_json\<close>: raise for the status, else decode.\<close>

definition raise_or_json :: "'j response \<Rightarrow> error + 'j" where
  "raise_or_json r =
     (case raise_for_status r of
        Inl e \<Rightarrow> Inl e
      | Inr _ \<Rightarrow> (case json_body r of None \<Rightarrow> Inl JSONDecodeError | Some j \<Rightarrow> Inr j))"

text \<open>
  \<^verbatim>\<open>
  async def get_json(client, url, params=None):
      async with semaphore:
          r = await client.get(url, params=params)
      if r.status_code == 403 and "rate limit" in (r.text or "").lower():
          reset = r.headers.get("X-RateLimit-Reset")
          if reset:
              wait = int(reset) - int(time.time()) + 5
              await asyncio.sleep(max(5, wait))
              return await get_json(client, url, params)
      r.raise_for_status()
      return r.json()
  \<close>
  The world is explicit: \<open>client_get n req\<close> is the provider's response to the
  \<open>n\<close>-th attempt of the request, \<open>time_now n\<close> is \<^verbatim>\<open>int(time.time())\<close> when
  that response is handled, and the trace collects the requests sent and the sleeps
  taken. The recursion has no bound in the source, so the function is partial:
  \<open>None\<close> is a call that never returns.
\<close>

partial_function (option) get_json ::
  "(nat \<Rightarrow> request \<Rightarrow> 'j response) \<Rightarrow> (nat \<Rightarrow> int) \<Rightarrow> request \<Rightarrow> nat \<Rightarrow> event list
     \<Rightarrow> (event list \<times> (error + 'j)) option" where
  "get_json client_get time_now req n tr =
     (let r = client_get n req; tr1 = tr @ [Get req] in
      if status_code r = 403 \<and> rate_limit_text (resp_text r) then
        (case x_ratelimit_reset r of
           Some (Reset_int reset) \<Rightarrow>
             (let wait = reset - time_now n + 5 in
              get_json client_get time_now req (Suc n) (tr1 @ [Sleep (max 5 wait)]))
         | Some Reset_bad \<Rightarrow> Some (tr1, Inl ValueError)
         | _ \<Rightarrow> Some (tr1, raise_or_json r))
      else Some (tr1, raise_or_json r))"

declare get_json.simps [code]

section \<open>Listing the runs of a repository\<close>

text \<open>
  A decoded JSON body, by what the script asks of it. A dictionary is kept as its
  entries under \<^verbatim>\<open>"workflow_runs"\<close> and \<^verbatim>\<open>"jobs"\<close> (\<open>None\<close> when the key
  is missing) and whether it holds any other key; any other value (null, a list, a
  number) only by its truth value.
\<close>

datatype json =
    JDict bool "workflow_run list option" "job list option"
  | JOther bool

text \<open>\<^verbatim>\<open>if not j\<close>: an empty dictionary is falsy, as are null, 0 and the empty list.\<close>

fun truthy_json :: "json \<Rightarrow> bool" where
  "truthy_json (JDict other_keys wr js) = (other_keys \<or> wr \<noteq> None \<or> js \<noteq> None)"
| "truthy_json (JOther b) = b"

text \<open>
  \<^verbatim>\<open>j.get("workflow_runs", [])\<close> and \<^verbatim>\<open>j.get("jobs", [])\<close>; a value that is
  no dictionary has no \<^verbatim>\<open>get\<close>.
\<close>

fun get_workflow_runs :: "json \<Rightarrow> error + workflow_run list" where
  "get_workflow_runs (JDict other_keys wr js) = Inr (case wr of None \<Rightarrow> [] | Some rs \<Rightarrow> rs)"
| "get_workflow_runs (JOther b) = Inl AttributeError"

fun get_jobs :: "json \<Rightarrow> error + job list" where
  "get_jobs (JDict other_keys wr js) = Inr (case js of None \<Rightarrow> [] | Some l \<Rightarrow> l)"
| "get_jobs (JOther b) = Inl AttributeError"

text \<open>Formatting an integer into a url, as an f-string does.\<close>

definition digit_char :: "nat \<Rightarrow> char" where
  "digit_char d = ''0123456789'' ! d"

fun string_of_nat :: "nat \<Rightarrow> string" where
  "string_of_nat n =
     (if n < 10 then [digit_char n] else string_of_nat (n div 10) @ [digit_char (n mod 10)])"

definition string_of_int :: "int \<Rightarrow> string" where
  "string_of_int i = (if i < 0 then CHR ''-'' # string_of_nat (nat (- i)) else string_of_nat (nat i))"

definition runs_url :: "string \<Rightarrow> string \<Rightarrow> string \<Rightarrow> string" where
  "runs_url api_base owner repo = api_base @ ''/repos/'' @ owner @ ''/'' @ repo @ ''/actions/runs''"

definition jobs_url :: "string \<Rightarrow> string \<Rightarrow> string \<Rightarrow> int \<Rightarrow> string" where
  "jobs_url api_base owner repo rid =
     api_base @ ''/repos/'' @ owner @ ''/'' @ repo @ ''/actions/runs/'' @ string_of_int rid @ ''/jobs''"

definition page_request :: "string \<Rightarrow> int \<Rightarrow> int \<Rightarrow> request" where
  "page_request url per_page page =
     \<lparr>req_url = url, req_params = Some \<lparr>param_per_page = per_page, param_page = page\<rparr>\<rparr>"

text \<open>
  \<^verbatim>\<open>
  async def fetch_runs_for_repo(client, owner, repo, per_page, max_pages):
      runs = []
      for page in range(1, max_pages + 1):
          url = f"{API_BASE}/repos/{owner}/{repo}/actions/runs"
          params = {"per_page": per_page, "page": page}
          j = await get_json(client, url, params=params)
          if not j:
              break
          page_runs = j.get("workflow_runs", [])
          runs.extend(page_runs)
          if len(page_runs) < per_page:
              break
      return runs
  \<close>
  The loop runs over the pages still to request; \<open>gj req\<close> is what the call
  \<^verbatim>\<open>get_json(client, url, params)\<close> returns or raises. The requests made are
  returned beside the result.
\<close>

fun pages_loop ::
  "(request \<Rightarrow> error + json) \<Rightarrow> string \<Rightarrow> int \<Rightarrow> int list \<Rightarrow> workflow_run list \<Rightarrow> request list
     \<Rightarrow> request list \<times> (error + workflow_run list)" where
  "pages_loop gj url per_page [] runs reqs = (reqs, Inr runs)"
| "pages_loop gj url per_page (page # pages) runs reqs =
     (let req = page_request url per_page page in
      case gj req of
        Inl e \<Rightarrow> (reqs @ [req], Inl e)
      | Inr j \<Rightarrow>
          if \<not> truthy_json j then (reqs @ [req], Inr runs)
          else
            (case get_workflow_runs j of
               Inl e \<Rightarrow> (reqs @ [req], Inl e)
             | Inr page_runs \<Rightarrow>
                 if int (length page_runs) < per_page then (reqs @ [req], Inr (runs @ page_runs))
                 else pages_loop gj url per_page pages (runs @ page_runs) (reqs @ [req])))"

definition fetch_runs_for_repo ::
  "(request \<Rightarrow> error + json) \<Rightarrow> string \<Rightarrow> string \<Rightarrow> string \<Rightarrow> int \<Rightarrow> int
     \<Rightarrow> request list \<times> (error + workflow_run list)" where
  "fetch_runs_for_repo gj api_base owner repo per_page max_pages =
     pages_loop gj (runs_url api_base owner repo) per_page [1..max_pages] [] []"

text \<open>
  \<^verbatim>\<open>
  async def fetch_jobs_for_run(client, owner, repo, run_id):
      url = f"{API_BASE}/repos/{owner}/{repo}/actions/runs/{run_id}/jobs"
      j = await get_json(client, url)
      return j.get("jobs", [])
  \<close>
\<close>

definition fetch_jobs_for_run ::
  "(request \<Rightarrow> error + json) \<Rightarrow> string \<Rightarrow> string \<Rightarrow> string \<Rightarrow> int \<Rightarrow> error + job list" where
  "fetch_jobs_for_run gj api_base owner repo rid =
     (case gj \<lparr>req_url = jobs_url api_base owner repo rid, req_params = None\<rparr> of
        Inl e \<Rightarrow> Inl e
      | Inr j \<Rightarrow> get_jobs j)"

section \<open>Building the report\<close>

text \<open>
  A row of the report (the dictionaries appended to \<^verbatim>\<open>rows\<close>) and a record of the
  table (the dictionaries the data frame is built from).
\<close>

record report_row =
  row_org_repo :: string
  row_workflow_run_id :: int
  row_workflow_name :: "string option"
  row_workflow_id :: "int option"
  row_head_branch :: "string option"
  row_head_sha :: "string option"
  row_event :: "string option"
  row_status :: "string option"
  row_conclusion :: "string option"
  row_created_at :: "string option"
  row_run_started_at :: "string option"
  row_updated_at :: "string option"
  row_actor :: "string option"
  row_html_url :: "string option"
  row_jobs :: "job list option"
  row_queued_reason_inferred :: "queued_reason option"

record table_record =
  col_org_repo :: string
  col_workflow_run_id :: int
  col_workflow_name :: "string option"
  col_head_branch :: "string option"
  col_event :: "string option"
  col_status :: "string option"
  col_conclusion :: "string option"
  col_created_at :: "string option"
  col_updated_at :: "string option"
  col_actor :: "string option"
  col_jobs_count :: "nat option"
  col_queued_reason_inferred :: "queued_reason option"
  col_html_url :: "string option"

text \<open>
  \<^verbatim>\<open>detail_runs = [r for r in runs if r.get("status") in ("queued", "in_progress")]\<close>
\<close>

definition selected :: "workflow_run \<Rightarrow> bool" where
  "selected r = (run_status r = Some ''queued'' \<or> run_status r = Some ''in_progress'')"

definition detail_runs_of :: "workflow_run list \<Rightarrow> workflow_run list" where
  "detail_runs_of runs = filter selected runs"

text \<open>
  \<^verbatim>\<open>
  jobs_map = {
      detail_runs[i]["id"]: jobs_results[i]
      for i in range(len(detail_runs))
      if not isinstance(jobs_results[i], Exception)
  }
  \<close>
  \<^verbatim>\<open>jobs_results\<close> is what \<^verbatim>\<open>asyncio.gather(*tasks, return_exceptions=True)\<close>
  returns: one entry per task, the job list or the exception the task raised. A later
  entry of the comprehension replaces an earlier one under the same key.
\<close>

definition jobs_map_of :: "workflow_run list \<Rightarrow> (error + job list) list \<Rightarrow> (int \<rightharpoonup> job list)" where
  "jobs_map_of detail_runs jobs_results =
     foldl (\<lambda>m i. case jobs_results ! i of
                     Inl e \<Rightarrow> m
                   | Inr js \<Rightarrow> m(run_id (detail_runs ! i) \<mapsto> js))
       Map.empty [0..<length detail_runs]"

text \<open>The map after the first \<open>n\<close> steps of the comprehension.\<close>

definition jobs_map_upto :: "workflow_run list \<Rightarrow> (error + job list) list \<Rightarrow> nat \<Rightarrow> (int \<rightharpoonup> job list)" where
  "jobs_map_upto detail_runs jobs_results n =
     foldl (\<lambda>m i. case jobs_results ! i of
                     Inl e \<Rightarrow> m
                   | Inr js \<Rightarrow> m(run_id (detail_runs ! i) \<mapsto> js))
       Map.empty [0..<n]"

text \<open>\<^verbatim>\<open>(r.get("actor") or {}).get("login")\<close>\<close>

definition actor_login :: "string option option \<Rightarrow> string option" where
  "actor_login a = (case a of None \<Rightarrow> None | Some l \<Rightarrow> l)"

text \<open>
  The body of the loop \<^verbatim>\<open>for r in runs\<close>: \<^verbatim>\<open>jobs = jobs_map.get(rid)\<close>,
  \<^verbatim>\<open>inferred = infer_queued_reason(r, jobs or [])\<close> and the row appended.
\<close>

definition make_row :: "string \<Rightarrow> string \<Rightarrow> (int \<rightharpoonup> job list) \<Rightarrow> workflow_run \<Rightarrow> report_row" where
  "make_row owner repo jobs_map r =
     (let rid = run_id r;
          jobs = jobs_map rid;
          inferred = infer_queued_reason r (case jobs of None \<Rightarrow> [] | Some js \<Rightarrow> js)
      in \<lparr>row_org_repo = owner @ ''/'' @ repo,
          row_workflow_run_id = rid,
          row_workflow_name = run_name r,
          row_workflow_id = run_workflow_id r,
          row_head_branch = run_head_branch r,
          row_head_sha = run_head_sha r,
          row_event = run_event r,
          row_status = run_status r,
          row_conclusion = run_conclusion r,
          row_created_at = run_created_at r,
          row_run_started_at = run_run_started_at r,
          row_updated_at = run_updated_at r,
          row_actor = actor_login (run_actor r),
          row_html_url = run_html_url r,
          row_jobs = jobs,
          row_queued_reason_inferred = inferred\<rparr>)"

definition build_rows :: "string \<Rightarrow> string \<Rightarrow> (int \<rightharpoonup> job list) \<Rightarrow> workflow_run list \<Rightarrow> report_row list" where
  "build_rows owner repo jobs_map runs = map (make_row owner repo jobs_map) runs"

text \<open>
  The dictionary of the data frame for one row;
  \<^verbatim>\<open>"jobs_count": len(r["jobs"]) if r["jobs"] else None\<close>.
\<close>

definition to_table_record :: "report_row \<Rightarrow> table_record" where
  "to_table_record r =
     \<lparr>col_org_repo = row_org_repo r,
      col_workflow_run_id = row_workflow_run_id r,
      col_workflow_name = row_workflow_name r,
      col_head_branch = row_head_branch r,
      col_event = row_event r,
      col_status = row_status r,
      col_conclusion = row_conclusion r,
      col_created_at = row_created_at r,
      col_updated_at = row_updated_at r,
      col_actor = row_actor r,
      col_jobs_count =
        (case row_jobs r of
           None \<Rightarrow> None
         | Some js \<Rightarrow> if js \<noteq> [] then Some (length js) else None),
      col_queued_reason_inferred = row_queued_reason_inferred r,
      col_html_url = row_html_url r\<rparr>"

text \<open>
  \<^verbatim>\<open>df.groupby(["status","conclusion"]).size().reset_index(name="count")\<close>.
  A data frame built from no record has no column, and grouping it by a column name
  raises \<^verbatim>\<open>KeyError\<close>. The grouping drops every record with a missing value in
  one of the keys (pandas: \<^verbatim>\<open>dropna=True\<close> unless asked otherwise) and sorts the
  groups by their keys.
\<close>

definition group_key :: "table_record \<Rightarrow> (string \<times> string) option" where
  "group_key t =
     (case col_status t of
        None \<Rightarrow> None
      | Some s \<Rightarrow> (case col_conclusion t of None \<Rightarrow> None | Some c \<Rightarrow> Some (s, c)))"

definition groupby_size :: "table_record list \<Rightarrow> error + ((string \<times> string) \<times> nat) list" where
  "groupby_size df =
     (if df = [] then Inl KeyError
      else
        (let ks = List.map_filter group_key df
         in Inr (map (\<lambda>k. (k, count_list ks k)) (sort (remdups ks)))))"

text \<open>\<^verbatim>\<open>df[df["status"]=="queued"].head(200)\<close>\<close>

definition queued_head :: "table_record list \<Rightarrow> table_record list" where
  "queued_head df = take 200 (filter (\<lambda>t. col_status t = Some ''queued'') df)"

text \<open>The files written, by name and by what they hold.\<close>

datatype artifact =
    Json_file string "report_row list"
  | Csv_file string "table_record list"
  | Html_file string "((string \<times> string) \<times> nat) list" "table_record list"

text \<open>\<^verbatim>\<open>owner_repo.split("/")\<close>\<close>

fun split_on :: "char \<Rightarrow> string \<Rightarrow> string list" where
  "split_on c [] = [[]]"
| "split_on c (x # xs) =
     (if x = c then [] # split_on c xs
      else (case split_on c xs of [] \<Rightarrow> [[x]] | p # ps \<Rightarrow> (x # p) # ps))"

text \<open>
  The world \<^verbatim>\<open>process_repo\<close> runs in: the base url of the provider, what
  \<^verbatim>\<open>get_json\<close> returns or raises for the request of a page of runs, and what it
  returns or raises for the request of the \<open>i\<close>-th task of the gathered batch.
\<close>

record world =
  api_base :: string
  runs_get_json :: "request \<Rightarrow> error + json"
  jobs_get_json :: "nat \<Rightarrow> request \<Rightarrow> error + json"

text \<open>
  \<^verbatim>\<open>
  tasks = [fetch_jobs_for_run(client, owner, repo, r["id"]) for r in detail_runs]
  jobs_results = await asyncio.gather(*tasks, return_exceptions=True)
  \<close>
  Every task runs to its end; the result holds, in the order of the tasks, what each
  returned or the exception it raised.
\<close>

definition gather_jobs :: "world \<Rightarrow> string \<Rightarrow> string \<Rightarrow> workflow_run list \<Rightarrow> (error + job list) list" where
  "gather_jobs w owner repo detail_runs =
     map (\<lambda>i. fetch_jobs_for_run (jobs_get_json w i) (api_base w) owner repo (run_id (detail_runs ! i)))
       [0..<length detail_runs]"

text \<open>
  \<^verbatim>\<open>process_repo\<close>: fetch the runs, gather the jobs of the selected runs with
  exceptions returned as results, build the rows, then write the three files in the
  order json, csv, html. The files written so far are returned beside the result; an
  exception ends the function where it is raised.
\<close>

definition process_repo :: "world \<Rightarrow> string \<Rightarrow> int \<Rightarrow> int \<Rightarrow> string \<Rightarrow> artifact list \<times> (error + unit)" where
  "process_repo w owner_repo per_page max_pages out_prefix =
     (case split_on CHR ''/'' owner_repo of
        [owner, repo] \<Rightarrow>
          (case snd (fetch_runs_for_repo (runs_get_json w) (api_base w) owner repo per_page max_pages) of
             Inl e \<Rightarrow> ([], Inl e)
           | Inr runs \<Rightarrow>
               (let detail_runs = detail_runs_of runs;
                    jobs_results = gather_jobs w owner repo detail_runs;
                    jobs_map = jobs_map_of detail_runs jobs_results;
                    rows = build_rows owner repo jobs_map runs;
                    json_out = out_prefix @ ''.json'';
                    df = map to_table_record rows;
                    csv_out = out_prefix @ ''.csv''
                in case groupby_size df of
                     Inl e \<Rightarrow> ([Json_file json_out rows, Csv_file csv_out df], Inl e)
                   | Inr counts \<Rightarrow>
                       ([Json_file json_out rows, Csv_file csv_out df,
                         Html_file (out_prefix @ ''.html'') counts (queued_head df)], Inr ())))
      | _ \<Rightarrow> ([], Inl ValueError))"

text \<open>
  \<^verbatim>\<open>main\<close> runs \<^verbatim>\<open>process_repo\<close> on \<^verbatim>\<open>f"{args.owner}/{args.repo}"\<close>; an
  exception that leaves it ends the interpreter with status 1.
\<close>

definition main :: "world \<Rightarrow> string \<Rightarrow> string \<Rightarrow> string \<Rightarrow> int \<Rightarrow> int \<Rightarrow> artifact list \<times> int" where
  "main w owner repo out_prefix per_page max_pages =
     (case process_repo w (owner @ ''/'' @ repo) per_page max_pages out_prefix of
        (files, Inl e) \<Rightarrow> (files, 1)
      | (files, Inr u) \<Rightarrow> (files, 0))"

section \<open>Concrete inputs\<close>

text \<open>A provider that answers the attempts with a fixed script, then with a last response.\<close>

definition scripted :: "'j response list \<Rightarrow> 'j response \<Rightarrow> nat \<Rightarrow> request \<Rightarrow> 'j response" where
  "scripted rs final n req = (if n < length rs then rs ! n else final)"

definition clock_at :: "int \<Rightarrow> nat \<Rightarrow> int" where
  "clock_at t n = t"

definition mk_response :: "int \<Rightarrow> string \<Rightarrow> reset_header option \<Rightarrow> 'j option \<Rightarrow> 'j response" where
  "mk_response c t h b = \<lparr>status_code = c, resp_text = t, x_ratelimit_reset = h, json_body = b\<rparr>"

definition jobs_request :: request where
  "jobs_request = \<lparr>req_url = ''https://api.github.com/repos/o/r/actions/runs/1/jobs'', req_params = None\<rparr>"

text \<open>Runs and jobs used as concrete inputs below.\<close>

definition mk_run :: "int \<Rightarrow> string option \<Rightarrow> string option \<Rightarrow> workflow_run" where
  "mk_run i st co =
     \<lparr>run_id = i, run_name = Some ''ci'', run_workflow_id = Some 7,
      run_head_branch = Some ''main'', run_head_sha = Some ''abc'', run_event = Some ''push'',
      run_status = st, run_conclusion = co, run_created_at = None, run_run_started_at = None,
      run_updated_at = None, run_actor = Some (Some ''octocat''), run_html_url = None\<rparr>"

definition mk_job :: "string \<Rightarrow> string option \<Rightarrow> job" where
  "mk_job st rn = \<lparr>job_status = Some st, job_runner_name = rn\<rparr>"

definition page_of_runs :: "workflow_run list \<Rightarrow> json" where
  "page_of_runs rs = JDict True (Some rs) None"

text \<open>
  A listing of three runs served two per page: page 1 is full, page 2 is short, every
  later page is empty.
\<close>

definition two_page_body :: "int \<Rightarrow> json" where
  "two_page_body p =
     (if p = 1 then page_of_runs [mk_run 11 (Some ''queued'') None, mk_run 12 (Some ''completed'') (Some ''success'')]
      else if p = 2 then page_of_runs [mk_run 13 (Some ''in_progress'') None]
      else page_of_runs [])"

definition two_page_listing :: "request \<Rightarrow> error + json" where
  "two_page_listing req =
     (case req_params req of
        None \<Rightarrow> Inl (HTTPStatusError 404 ''Not Found'')
      | Some ps \<Rightarrow> Inr (two_page_body (param_page ps)))"

text \<open>
  A repository with three runs on one page: one queued, one in progress, one completed.
  In \<open>example_world\<close> the job fetch of the first selected run fails with a server error
  and the second returns one queued job without a runner; in \<open>listing_down_world\<close>
  the listing itself fails.
\<close>

definition example_runs :: "workflow_run list" where
  "example_runs =
     [mk_run 1 (Some ''queued'') None, mk_run 2 (Some ''in_progress'') None,
      mk_run 3 (Some ''completed'') (Some ''success'')]"

definition one_page_listing :: "request \<Rightarrow> error + json" where
  "one_page_listing req = Inr (page_of_runs example_runs)"

definition first_task_fails :: "nat \<Rightarrow> request \<Rightarrow> error + json" where
  "first_task_fails i req =
     (if i = 0 then Inl (HTTPStatusError 500 ''Internal Server Error'')
      else Inr (JDict True None (Some [mk_job ''queued'' None])))"

definition all_tasks_fail :: "nat \<Rightarrow> request \<Rightarrow> error + json" where
  "all_tasks_fail i req = Inl (HTTPStatusError 502 ''Bad Gateway'')"

definition example_world :: world where
  "example_world =
     \<lparr>api_base = ''https://api.github.com'', runs_get_json = one_page_listing,
      jobs_get_json = first_task_fails\<rparr>"

definition failing_listing :: "request \<Rightarrow> error + json" where
  "failing_listing req = Inl (HTTPStatusError 500 ''Internal Server Error'')"

definition listing_down_world :: world where
  "listing_down_world =
     \<lparr>api_base = ''https://api.github.com'', runs_get_json = failing_listing,
      jobs_get_json = first_task_fails\<rparr>"





section \<open>Reading the outcome of a run\<close>



section \<open>The pagination rule in the words of the specification\<close>

text \<open>
  The items a page contributes (none when the response is falsy), the condition under
  which the paginator stops after a page, and the responses the listing endpoint can
  give: a dictionary or a falsy value.
\<close>

definition spec_page_items :: "json \<Rightarrow> workflow_run list" where
  "spec_page_items j =
     (if truthy_json j then (case get_workflow_runs j of Inl e \<Rightarrow> [] | Inr rs \<Rightarrow> rs) else [])"

definition spec_stops_early :: "int \<Rightarrow> json \<Rightarrow> bool" where
  "spec_stops_early per_page j = (\<not> truthy_json j \<or> int (length (spec_page_items j)) < per_page)"

definition listing_body :: "json \<Rightarrow> bool" where
  "listing_body j = (case j of JDict other_keys wr js \<Rightarrow> True | JOther b \<Rightarrow> \<not> b)"

section \<open>Properties of the heuristic\<close>

lemma awaiting_iff:
  "awaiting j \<longleftrightarrow>
     job_status j = Some ''queued'' \<and> (job_runner_name j = None \<or> job_runner_name j = Some [])"
  by (cases "job_runner_name j") (simp_all add: awaiting_def truthy_str_def)

text \<open>
  C2. For every run and every job list, \<^verbatim>\<open>infer_queued_reason\<close> returns
  nothing when the run's status is not "queued". Otherwise it returns
  \<open>no_available_runner\<close> when the job list is non-empty and every job is queued with no
  runner assigned, else \<open>runner_capacity\<close> when some job is queued with no runner
  assigned, else \<open>unknown_or_concurrency\<close>; the last in particular for the empty job
  list and for a job list whose only job is completed with a runner.
\<close>

theorem infer_queued_reason_decision:
  "(run_status run \<noteq> Some ''queued'' \<longrightarrow> infer_queued_reason run jobs = None) \<and>
   (run_status run = Some ''queued'' \<longrightarrow>
      infer_queued_reason run jobs =
        (if jobs \<noteq> [] \<and> (\<forall>j \<in> set jobs. job_status j = Some ''queued'' \<and>
              (job_runner_name j = None \<or> job_runner_name j = Some []))
         then Some no_available_runner
         else if (\<exists>j \<in> set jobs. job_status j = Some ''queued'' \<and>
              (job_runner_name j = None \<or> job_runner_name j = Some []))
         then Some runner_capacity
         else Some unknown_or_concurrency) \<and>
      infer_queued_reason run [] = Some unknown_or_concurrency \<and>
      infer_queued_reason run [\<lparr>job_status = Some ''completed'', job_runner_name = Some ''r1''\<rparr>]
        = Some unknown_or_concurrency)"
proof -
  have all_eq: "list_all awaiting jobs \<longleftrightarrow>
      (\<forall>j \<in> set jobs. job_status j = Some ''queued'' \<and>
         (job_runner_name j = None \<or> job_runner_name j = Some []))"
    by (simp add: list_all_iff awaiting_iff)
  have ex_eq: "list_ex awaiting jobs \<longleftrightarrow>
      (\<exists>j \<in> set jobs. job_status j = Some ''queued'' \<and>
         (job_runner_name j = None \<or> job_runner_name j = Some []))"
    by (simp add: list_ex_iff awaiting_iff)
  have not_queued: "run_status run \<noteq> Some ''queued'' \<longrightarrow> infer_queued_reason run jobs = None"
    by (simp add: infer_queued_reason_def)
  have general: "run_status run = Some ''queued'' \<longrightarrow>
      infer_queued_reason run jobs =
        (if jobs \<noteq> [] \<and> (\<forall>j \<in> set jobs. job_status j = Some ''queued'' \<and>
              (job_runner_name j = None \<or> job_runner_name j = Some []))
         then Some no_available_runner
         else if (\<exists>j \<in> set jobs. job_status j = Some ''queued'' \<and>
              (job_runner_name j = None \<or> job_runner_name j = Some []))
         then Some runner_capacity
         else Some unknown_or_concurrency)"
    unfolding all_eq [symmetric] ex_eq [symmetric]
    by (cases jobs) (simp_all add: infer_queued_reason_def)
  have empty: "run_status run = Some ''queued'' \<longrightarrow>
      infer_queued_reason run [] = Some unknown_or_concurrency"
    by (simp add: infer_queued_reason_def)
  have completed: "run_status run = Some ''queued'' \<longrightarrow>
      infer_queued_reason run [\<lparr>job_status = Some ''completed'', job_runner_name = Some ''r1''\<rparr>]
        = Some unknown_or_concurrency"
    by (simp add: infer_queued_reason_def awaiting_def)
  from not_queued general empty completed show ?thesis by blast
qed

theorem infer_queued_reason_decision_witness:
  "infer_queued_reason (mk_run 1 (Some ''completed'') (Some ''success'')) [mk_job ''queued'' None] = None \<and>
   infer_queued_reason (mk_run 2 (Some ''queued'') None) [mk_job ''queued'' None, mk_job ''queued'' (Some [])]
     = Some no_available_runner \<and>
   infer_queued_reason (mk_run 2 (Some ''queued'') None) [mk_job ''queued'' (Some ''r1''), mk_job ''queued'' None]
     = Some runner_capacity \<and>
   infer_queued_reason (mk_run 2 (Some ''queued'') None) [] = Some unknown_or_concurrency"
  using infer_queued_reason_decision [of "mk_run 1 (Some ''completed'') (Some ''success'')" "[mk_job ''queued'' None]"]
    infer_queued_reason_decision [of "mk_run 2 (Some ''queued'') None" "[mk_job ''queued'' None, mk_job ''queued'' (Some [])]"]
    infer_queued_reason_decision [of "mk_run 2 (Some ''queued'') None" "[mk_job ''queued'' (Some ''r1''), mk_job ''queued'' None]"]
  by (simp add: mk_run_def mk_job_def)

section \<open>Properties of the fetcher\<close>

lemma get_json_final:
  "\<not> (status_code (cg n req) = 403 \<and> rate_limit_text (resp_text (cg n req))) \<Longrightarrow>
   get_json cg t req n tr = Some (tr @ [Get req], raise_or_json (cg n req))"
  by (subst get_json.simps) (auto simp add: Let_def)

lemma get_json_no_reset:
  "x_ratelimit_reset (cg n req) = None \<or> x_ratelimit_reset (cg n req) = Some Reset_empty \<Longrightarrow>
   get_json cg t req n tr = Some (tr @ [Get req], raise_or_json (cg n req))"
  by (subst get_json.simps) (auto simp add: Let_def)

lemma get_json_retry:
  "status_code (cg n req) = 403 \<Longrightarrow> rate_limit_text (resp_text (cg n req)) \<Longrightarrow>
   x_ratelimit_reset (cg n req) = Some (Reset_int v) \<Longrightarrow>
   get_json cg t req n tr =
     get_json cg t req (Suc n) (tr @ [Get req, Sleep (max 5 (v - t n + 5))])"
  by (subst get_json.simps) (simp add: Let_def)

lemma raise_or_json_failure:
  "\<not> (200 \<le> status_code r \<and> status_code r \<le> 299) \<Longrightarrow>
   raise_or_json r = Inl (HTTPStatusError (status_code r) (resp_text r))"
  by (auto simp add: raise_or_json_def raise_for_status_def)

text \<open>
  C10. A 403 response whose body indicates a rate limit but which carries no
  \<^verbatim>\<open>X-RateLimit-Reset\<close> header is not slept on and not retried: the call sends
  the one request and raises the status error, as for any other failure status.
\<close>

theorem get_json_rate_limited_without_reset:
  assumes "status_code (cg n req) = 403"
    and "rate_limit_text (resp_text (cg n req))"
    and "x_ratelimit_reset (cg n req) = None"
  shows "get_json cg t req n tr =
    Some (tr @ [Get req], Inl (HTTPStatusError 403 (resp_text (cg n req))))"
proof -
  have "raise_or_json (cg n req) = Inl (HTTPStatusError 403 (resp_text (cg n req)))"
    using assms(1) raise_or_json_failure [of "cg n req"] by simp
  with assms(3) show ?thesis
    by (simp add: get_json_no_reset)
qed

theorem get_json_rate_limited_without_reset_witness:
  "get_json (scripted [] (mk_response 403 ''API rate limit exceeded for user'' None (None :: json option)))
     (clock_at 1700000000) jobs_request 0 []
   = Some ([Get jobs_request], Inl (HTTPStatusError 403 ''API rate limit exceeded for user''))"
proof -
  have rl: "rate_limit_text ''API rate limit exceeded for user''"
    by code_simp
  show ?thesis
    using rl get_json_rate_limited_without_reset
      [of "scripted [] (mk_response 403 ''API rate limit exceeded for user'' None (None :: json option))"
          0 jobs_request "clock_at 1700000000" "[]"]
    by (simp add: scripted_def mk_response_def)
qed

text \<open>
  C6, as the code has it. The claim as stated (every rate-limited 403 is slept on and
  retried) fails when the reset header is missing: the call below sends one request,
  takes no sleep and raises.
\<close>

theorem get_json_backoff_counterexample:
  "get_json (scripted [] (mk_response 403 ''rate limit exceeded'' None (None :: json option)))
     (clock_at 100) (page_request ''https://api.github.com/repos/o/r/actions/runs'' 100 1) 0 []
   = Some ([Get (page_request ''https://api.github.com/repos/o/r/actions/runs'' 100 1)],
           Inl (HTTPStatusError 403 ''rate limit exceeded''))"
  by code_simp

text \<open>
  C6, amended. For a 403 response whose body indicates a rate limit and whose reset
  header holds an integer, \<^verbatim>\<open>get_json\<close> sleeps exactly
  \<open>max 5 (reset - now + 5)\<close> seconds and then calls itself once on the same request;
  when the next response is no rate-limited 403, the whole call has sent the request
  twice, slept once, and ends as that response decides. On every other failure status,
  and on a rate-limited 403 whose reset header is missing or empty, it raises the status
  error carrying the status code and the body after the one request, with no sleep and
  no retry.
\<close>

theorem get_json_backoff_and_failure:
  "(status_code (cg n req) = 403 \<and> rate_limit_text (resp_text (cg n req)) \<and>
      x_ratelimit_reset (cg n req) = Some (Reset_int reset) \<longrightarrow>
      get_json cg t req n tr =
        get_json cg t req (Suc n) (tr @ [Get req, Sleep (max 5 (reset - t n + 5))]) \<and>
      (\<not> (status_code (cg (Suc n) req) = 403 \<and> rate_limit_text (resp_text (cg (Suc n) req))) \<longrightarrow>
        get_json cg t req n tr =
          Some (tr @ [Get req, Sleep (max 5 (reset - t n + 5)), Get req],
                raise_or_json (cg (Suc n) req)))) \<and>
   (\<not> (200 \<le> status_code (cg n req) \<and> status_code (cg n req) \<le> 299) \<and>
      (\<not> (status_code (cg n req) = 403 \<and> rate_limit_text (resp_text (cg n req))) \<or>
       x_ratelimit_reset (cg n req) = None \<or> x_ratelimit_reset (cg n req) = Some Reset_empty) \<longrightarrow>
      get_json cg t req n tr =
        Some (tr @ [Get req], Inl (HTTPStatusError (status_code (cg n req)) (resp_text (cg n req)))))"
proof (intro conjI impI)
  assume a: "status_code (cg n req) = 403 \<and> rate_limit_text (resp_text (cg n req)) \<and>
      x_ratelimit_reset (cg n req) = Some (Reset_int reset)"
  then show step: "get_json cg t req n tr =
        get_json cg t req (Suc n) (tr @ [Get req, Sleep (max 5 (reset - t n + 5))])"
    by (simp add: get_json_retry)
  assume "\<not> (status_code (cg (Suc n) req) = 403 \<and> rate_limit_text (resp_text (cg (Suc n) req)))"
  then show "get_json cg t req n tr =
          Some (tr @ [Get req, Sleep (max 5 (reset - t n + 5)), Get req],
                raise_or_json (cg (Suc n) req))"
    unfolding step by (simp add: get_json_final)
next
  assume b: "\<not> (200 \<le> status_code (cg n req) \<and> status_code (cg n req) \<le> 299) \<and>
      (\<not> (status_code (cg n req) = 403 \<and> rate_limit_text (resp_text (cg n req))) \<or>
       x_ratelimit_reset (cg n req) = None \<or> x_ratelimit_reset (cg n req) = Some Reset_empty)"
  then have "get_json cg t req n tr = Some (tr @ [Get req], raise_or_json (cg n req))"
    using get_json_final [of cg n req t tr] get_json_no_reset [of cg n req t tr] by blast
  with b show "get_json cg t req n tr =
        Some (tr @ [Get req], Inl (HTTPStatusError (status_code (cg n req)) (resp_text (cg n req))))"
    by (simp add: raise_or_json_failure)
qed

theorem get_json_backoff_and_failure_witness:
  "get_json (scripted [mk_response 403 ''API rate limit exceeded'' (Some (Reset_int 1700000030)) None]
              (mk_response 200 ''ok'' None (Some (JDict False None (Some [])))))
     (clock_at 1700000000) jobs_request 0 []
   = Some ([Get jobs_request, Sleep 35, Get jobs_request], Inr (JDict False None (Some []))) \<and>
   get_json (scripted [] (mk_response 404 ''Not Found'' None (None :: json option)))
     (clock_at 1700000000) jobs_request 0 []
   = Some ([Get jobs_request], Inl (HTTPStatusError 404 ''Not Found''))"
proof -
  have rl: "rate_limit_text ''API rate limit exceeded''"
    by code_simp
  have nrl: "\<not> rate_limit_text ''Not Found''"
    by code_simp
  have first: "get_json (scripted [mk_response 403 ''API rate limit exceeded'' (Some (Reset_int 1700000030)) None]
              (mk_response 200 ''ok'' None (Some (JDict False None (Some [])))))
     (clock_at 1700000000) jobs_request 0 []
   = Some ([Get jobs_request, Sleep 35, Get jobs_request], Inr (JDict False None (Some [])))"
    using rl get_json_backoff_and_failure
      [of "scripted [mk_response 403 ''API rate limit exceeded'' (Some (Reset_int 1700000030)) None]
              (mk_response 200 ''ok'' None (Some (JDict False None (Some []))))"
          0 jobs_request 1700000030 "clock_at 1700000000" "[]"]
    by (auto simp add: scripted_def mk_response_def clock_at_def raise_or_json_def raise_for_status_def)
  have second: "get_json (scripted [] (mk_response 404 ''Not Found'' None (None :: json option)))
     (clock_at 1700000000) jobs_request 0 []
   = Some ([Get jobs_request], Inl (HTTPStatusError 404 ''Not Found''))"
    using nrl get_json_backoff_and_failure
      [of "scripted [] (mk_response 404 ''Not Found'' None (None :: json option))"
          0 jobs_request 0 "clock_at 1700000000" "[]"]
    by (simp add: scripted_def mk_response_def)
  from first second show ?thesis by simp
qed

section \<open>Properties of the paginator\<close>

lemma pages_loop_step_stop:
  assumes "gj (page_request url pp a) = Inr j" "listing_body j" "spec_stops_early pp j"
  shows "pages_loop gj url pp (a # ps) runs reqs =
     (reqs @ [page_request url pp a], Inr (runs @ spec_page_items j))"
  using assms
  by (cases j) (auto simp add: listing_body_def spec_stops_early_def spec_page_items_def Let_def)

lemma pages_loop_step_go:
  assumes "gj (page_request url pp a) = Inr j" "listing_body j" "\<not> spec_stops_early pp j"
  shows "pages_loop gj url pp (a # ps) runs reqs =
     pages_loop gj url pp ps (runs @ spec_page_items j) (reqs @ [page_request url pp a])"
  using assms
  by (cases j) (auto simp add: listing_body_def spec_stops_early_def spec_page_items_def Let_def)

lemma pages_loop_upto:
  assumes "a \<le> k" "k \<le> b"
    and "\<forall>p \<in> {a..k}. gj (page_request url pp p) = Inr (resp p) \<and> listing_body (resp p)"
    and "\<forall>p \<in> {a..<k}. \<not> spec_stops_early pp (resp p)"
    and "spec_stops_early pp (resp k) \<or> k = b"
  shows "pages_loop gj url pp [a..b] runs reqs =
     (reqs @ map (page_request url pp) [a..k],
      Inr (runs @ concat (map (\<lambda>p. spec_page_items (resp p)) [a..k])))"
  using assms
proof (induction "nat (k - a)" arbitrary: a runs reqs)
  case 0
  then have ak: "a = k" by simp
  have ab: "[a..b] = a # [a + 1..b]"
    using "0.prems" by (simp add: upto_rec1)
  have g: "gj (page_request url pp a) = Inr (resp a)" "listing_body (resp a)"
    using "0.prems"(3) ak by auto
  show ?case
  proof (cases "spec_stops_early pp (resp a)")
    case True
    then show ?thesis
      using g ak unfolding ab by (simp add: pages_loop_step_stop del: pages_loop.simps)
  next
    case False
    with "0.prems"(5) ak have "k = b" by simp
    then have "[a + 1..b] = []" using ak by simp
    then show ?thesis
      using g ak False unfolding ab by (simp add: pages_loop_step_go del: pages_loop.simps(2))
  qed
next
  case (Suc d)
  then have lt: "a < k" by linarith
  have ab: "[a..b] = a # [a + 1..b]"
    using Suc.prems lt by (simp add: upto_rec1)
  have ak: "[a..k] = a # [a + 1..k]"
    using lt by (simp add: upto_rec1)
  have g: "gj (page_request url pp a) = Inr (resp a)" "listing_body (resp a)"
    using Suc.prems(3) lt by auto
  have ns: "\<not> spec_stops_early pp (resp a)"
    using Suc.prems(4) lt by auto
  have d: "d = nat (k - (a + 1))" using Suc.hyps(2) by linarith
  have IH: "pages_loop gj url pp [a + 1..b] (runs @ spec_page_items (resp a)) (reqs @ [page_request url pp a]) =
     ((reqs @ [page_request url pp a]) @ map (page_request url pp) [a + 1..k],
      Inr ((runs @ spec_page_items (resp a)) @ concat (map (\<lambda>p. spec_page_items (resp p)) [a + 1..k])))"
  proof (rule Suc.hyps(1) [OF d])
    show "a + 1 \<le> k" using lt by simp
    show "k \<le> b" by (rule Suc.prems(2))
    show "\<forall>p\<in>{a + 1..k}. gj (page_request url pp p) = Inr (resp p) \<and> listing_body (resp p)"
      using Suc.prems(3) by auto
    show "\<forall>p\<in>{a + 1..<k}. \<not> spec_stops_early pp (resp p)"
      using Suc.prems(4) by auto
    show "spec_stops_early pp (resp k) \<or> k = b" by (rule Suc.prems(5))
  qed
  show ?case
    unfolding ab ak using g ns IH by (simp add: pages_loop_step_go del: pages_loop.simps)
qed

lemma fetch_runs_general:
  assumes "1 \<le> k" "k \<le> max_pages"
    and "\<forall>p \<in> {1..k}. gj (page_request (runs_url api owner repo) per_page p) = Inr (resp p) \<and> listing_body (resp p)"
    and "\<forall>p \<in> {1..<k}. \<not> spec_stops_early per_page (resp p)"
    and "spec_stops_early per_page (resp k) \<or> k = max_pages"
  shows "fetch_runs_for_repo gj api owner repo per_page max_pages =
     (map (page_request (runs_url api owner repo) per_page) [1..k],
      Inr (concat (map (\<lambda>p. spec_page_items (resp p)) [1..k])))"
  unfolding fetch_runs_for_repo_def
  using pages_loop_upto [OF assms, of "[]" "[]"] by simp

lemma fetch_runs_two_pages:
  assumes "2 \<le> max_pages"
    and "gj (page_request (runs_url api owner repo) per_page 1) = Inr (JDict oa (Some first_page) ja)"
    and "gj (page_request (runs_url api owner repo) per_page 2) = Inr (JDict ob (Some second_page) jb)"
    and "per_page \<le> int (length first_page)"
    and "int (length second_page) < per_page"
  shows "fetch_runs_for_repo gj api owner repo per_page max_pages =
     ([page_request (runs_url api owner repo) per_page 1, page_request (runs_url api owner repo) per_page 2],
      Inr (first_page @ second_page))"
proof -
  define resp where "resp = (\<lambda>p::int. if p = 1 then JDict oa (Some first_page) ja else JDict ob (Some second_page) jb)"
  have r1: "\<forall>p \<in> {1..2}. gj (page_request (runs_url api owner repo) per_page p) = Inr (resp p) \<and> listing_body (resp p)"
  proof
    fix p :: int assume "p \<in> {1..2}"
    then have "p = 1 \<or> p = 2" by auto
    then show "gj (page_request (runs_url api owner repo) per_page p) = Inr (resp p) \<and> listing_body (resp p)"
      using assms(2,3) by (auto simp add: resp_def listing_body_def)
  qed
  have r2: "\<forall>p \<in> {1..<2}. \<not> spec_stops_early per_page (resp p)"
  proof
    fix p :: int assume "p \<in> {1..<2}"
    then have "p = 1" by auto
    then show "\<not> spec_stops_early per_page (resp p)"
      using assms(4) by (simp add: resp_def spec_stops_early_def spec_page_items_def)
  qed
  have r3: "spec_stops_early per_page (resp 2) \<or> 2 = max_pages"
    using assms(5) by (simp add: resp_def spec_stops_early_def spec_page_items_def)
  have u: "[1..2::int] = [1, 2]"
    by (simp add: upto_rec1)
  have "(1::int) \<le> 2" by simp
  from fetch_runs_general [OF this assms(1) r1 r2 r3]
  show ?thesis
    by (simp add: u resp_def spec_page_items_def)
qed

text \<open>Every listing has such a last page \<open>k\<close> once a first page is allowed.\<close>

lemma stopping_page_exists:
  assumes "(1::int) \<le> max_pages"
  shows "\<exists>k::int. 1 \<le> k \<and> k \<le> max_pages \<and>
     (\<forall>p \<in> {1..<k}. \<not> spec_stops_early per_page (resp p)) \<and>
     (spec_stops_early per_page (resp k) \<or> k = max_pages)"
  using assms
proof (induction max_pages rule: int_ge_induct)
  case base
  show ?case by (intro exI [of _ 1]) simp
next
  case (step m)
  then obtain k where k: "1 \<le> k" "k \<le> m"
      "\<forall>p \<in> {1..<k}. \<not> spec_stops_early per_page (resp p)"
      "spec_stops_early per_page (resp k) \<or> k = m"
    by blast
  show ?case
  proof (cases "spec_stops_early per_page (resp k)")
    case True
    with k show ?thesis by (intro exI [of _ k]) simp
  next
    case False
    with k(4) have km: "k = m" by simp
    have "\<forall>p \<in> {1..<m + 1}. \<not> spec_stops_early per_page (resp p)"
    proof
      fix p assume "p \<in> {1..<m + 1}"
      then have "p \<in> {1..<k} \<or> p = k" using km by auto
      then show "\<not> spec_stops_early per_page (resp p)" using k(3) False by auto
    qed
    with step.hyps show ?thesis by (intro exI [of _ "m + 1"]) simp
  qed
qed

text \<open>
  C3. For every sequence of page responses (\<open>resp p\<close> is the body
  \<^verbatim>\<open>get_json\<close> returns for page \<open>p\<close>), \<^verbatim>\<open>fetch_runs_for_repo\<close> requests the
  pages 1, 2, ... in order up to the page \<open>k\<close> that is the first page whose response
  is falsy or holds fewer than \<open>per_page\<close> items, or \<open>max_pages\<close> when there is no
  such page, and returns the concatenation of the items of the requested pages; with
  \<open>max_pages\<close> below 1 nothing is requested. So for a two-page listing (page 1 full,
  page 2 short, and \<open>max_pages\<close> allowing a second page) exactly 2 requests are made
  and the result has as many runs as both pages together.
\<close>

theorem fetch_runs_for_repo_pagination:
  "(1 \<le> k \<and> k \<le> max_pages \<and>
      (\<forall>p \<in> {1..k}. gj (page_request (runs_url api owner repo) per_page p) = Inr (resp p) \<and>
                       listing_body (resp p)) \<and>
      (\<forall>p \<in> {1..<k}. \<not> spec_stops_early per_page (resp p)) \<and>
      (spec_stops_early per_page (resp k) \<or> k = max_pages) \<longrightarrow>
      fetch_runs_for_repo gj api owner repo per_page max_pages =
        (map (page_request (runs_url api owner repo) per_page) [1..k],
         Inr (concat (map (\<lambda>p. spec_page_items (resp p)) [1..k])))) \<and>
   (max_pages < 1 \<longrightarrow> fetch_runs_for_repo gj api owner repo per_page max_pages = ([], Inr [])) \<and>
   (2 \<le> max_pages \<and>
      gj (page_request (runs_url api owner repo) per_page 1) = Inr (JDict oa (Some first_page) ja) \<and>
      gj (page_request (runs_url api owner repo) per_page 2) = Inr (JDict ob (Some second_page) jb) \<and>
      per_page \<le> int (length first_page) \<and> int (length second_page) < per_page \<longrightarrow>
      fetch_runs_for_repo gj api owner repo per_page max_pages =
        ([page_request (runs_url api owner repo) per_page 1,
          page_request (runs_url api owner repo) per_page 2], Inr (first_page @ second_page)) \<and>
      length (fst (fetch_runs_for_repo gj api owner repo per_page max_pages)) = 2 \<and>
      (\<exists>runs. snd (fetch_runs_for_repo gj api owner repo per_page max_pages) = Inr runs \<and>
              length runs = length first_page + length second_page))"
proof (intro conjI impI)
  assume "1 \<le> k \<and> k \<le> max_pages \<and>
      (\<forall>p \<in> {1..k}. gj (page_request (runs_url api owner repo) per_page p) = Inr (resp p) \<and>
                       listing_body (resp p)) \<and>
      (\<forall>p \<in> {1..<k}. \<not> spec_stops_early per_page (resp p)) \<and>
      (spec_stops_early per_page (resp k) \<or> k = max_pages)"
  then show "fetch_runs_for_repo gj api owner repo per_page max_pages =
        (map (page_request (runs_url api owner repo) per_page) [1..k],
         Inr (concat (map (\<lambda>p. spec_page_items (resp p)) [1..k])))"
    by (intro fetch_runs_general) blast+
next
  assume "max_pages < 1"
  then show "fetch_runs_for_repo gj api owner repo per_page max_pages = ([], Inr [])"
    by (simp add: fetch_runs_for_repo_def)
next
  assume two: "2 \<le> max_pages \<and>
      gj (page_request (runs_url api owner repo) per_page 1) = Inr (JDict oa (Some first_page) ja) \<and>
      gj (page_request (runs_url api owner repo) per_page 2) = Inr (JDict ob (Some second_page) jb) \<and>
      per_page \<le> int (length first_page) \<and> int (length second_page) < per_page"
  then have eq: "fetch_runs_for_repo gj api owner repo per_page max_pages =
        ([page_request (runs_url api owner repo) per_page 1,
          page_request (runs_url api owner repo) per_page 2], Inr (first_page @ second_page))"
    by (intro fetch_runs_two_pages [of max_pages gj api owner repo per_page oa first_page ja ob second_page jb]) blast+
  show "fetch_runs_for_repo gj api owner repo per_page max_pages =
        ([page_request (runs_url api owner repo) per_page 1,
          page_request (runs_url api owner repo) per_page 2], Inr (first_page @ second_page))"
    by (rule eq)
  show "length (fst (fetch_runs_for_repo gj api owner repo per_page max_pages)) = 2"
    by (simp add: eq)
  show "\<exists>runs. snd (fetch_runs_for_repo gj api owner repo per_page max_pages) = Inr runs \<and>
              length runs = length first_page + length second_page"
    by (simp add: eq)
qed

theorem fetch_runs_for_repo_pagination_witness:
  "fetch_runs_for_repo two_page_listing ''https://api.github.com'' ''o'' ''r'' 2 3 =
     ([page_request (runs_url ''https://api.github.com'' ''o'' ''r'') 2 1,
       page_request (runs_url ''https://api.github.com'' ''o'' ''r'') 2 2],
      Inr [mk_run 11 (Some ''queued'') None, mk_run 12 (Some ''completed'') (Some ''success''),
           mk_run 13 (Some ''in_progress'') None]) \<and>
   length (fst (fetch_runs_for_repo two_page_listing ''https://api.github.com'' ''o'' ''r'' 2 3)) = 2 \<and>
   fetch_runs_for_repo two_page_listing ''https://api.github.com'' ''o'' ''r'' 2 0 = ([], Inr [])"
  using fetch_runs_for_repo_pagination
    [where max_pages = 3 and gj = two_page_listing and api = "''https://api.github.com''"
       and owner = "''o''" and repo = "''r''" and per_page = 2 and k = 2 and resp = two_page_body
       and oa = True and ob = True and ja = None and jb = None
       and first_page = "[mk_run 11 (Some ''queued'') None, mk_run 12 (Some ''completed'') (Some ''success'')]"
       and second_page = "[mk_run 13 (Some ''in_progress'') None]"]
    fetch_runs_for_repo_pagination
    [where max_pages = 0 and gj = two_page_listing and api = "''https://api.github.com''"
       and owner = "''o''" and repo = "''r''" and per_page = 2 and k = 0 and resp = two_page_body
       and oa = True and ob = True and ja = None and jb = None and first_page = "[]" and second_page = "[]"]
  by (simp add: two_page_listing_def two_page_body_def page_of_runs_def page_request_def)

section \<open>Properties of the jobs map\<close>

lemma jobs_map_upto_0: "jobs_map_upto ds rs 0 = Map.empty"
  by (simp add: jobs_map_upto_def)

lemma jobs_map_upto_Suc:
  "jobs_map_upto ds rs (Suc n) =
     (case rs ! n of Inl e \<Rightarrow> jobs_map_upto ds rs n
                   | Inr js \<Rightarrow> (jobs_map_upto ds rs n)(run_id (ds ! n) \<mapsto> js))"
  by (cases "rs ! n") (simp_all add: jobs_map_upto_def)

lemma distinct_ids_nth:
  "distinct (map run_id ds) \<Longrightarrow> i < length ds \<Longrightarrow> j < length ds \<Longrightarrow> i \<noteq> j \<Longrightarrow>
   run_id (ds ! i) \<noteq> run_id (ds ! j)"
  using nth_eq_iff_index_eq [of "map run_id ds" i j] by simp

lemma jobs_map_of_upto: "jobs_map_of ds rs = jobs_map_upto ds rs (length ds)"
  by (simp add: jobs_map_of_def jobs_map_upto_def)

lemma jobs_map_upto_absent:
  "(\<And>i. i < n \<Longrightarrow> run_id (ds ! i) \<noteq> k \<or> isl (rs ! i)) \<Longrightarrow> jobs_map_upto ds rs n k = None"
proof (induction n)
  case 0
  then show ?case by (simp add: jobs_map_upto_0)
next
  case (Suc n)
  have IH: "jobs_map_upto ds rs n k = None"
    using Suc.prems by (intro Suc.IH) simp
  have "run_id (ds ! n) \<noteq> k \<or> isl (rs ! n)"
    using Suc.prems [of n] by simp
  then show ?case
    using IH by (cases "rs ! n") (auto simp add: jobs_map_upto_Suc)
qed

lemma jobs_map_upto_entry:
  assumes "distinct (map run_id ds)" "n \<le> length ds" "i < n"
  shows "jobs_map_upto ds rs n (run_id (ds ! i)) =
     (case rs ! i of Inl e \<Rightarrow> None | Inr js \<Rightarrow> Some js)"
  using assms(2,3)
proof (induction n)
  case 0
  then show ?case by simp
next
  case (Suc n)
  show ?case
  proof (cases "i = n")
    case True
    have "\<And>j. j < n \<Longrightarrow> run_id (ds ! j) \<noteq> run_id (ds ! n)"
    proof -
      fix j assume "j < n"
      then have "j < length ds" "n < length ds" "j \<noteq> n" using Suc.prems by auto
      then show "run_id (ds ! j) \<noteq> run_id (ds ! n)"
        using assms(1) by (simp add: distinct_ids_nth)
    qed
    then have "jobs_map_upto ds rs n (run_id (ds ! n)) = None"
      by (intro jobs_map_upto_absent) simp
    then show ?thesis
      using True by (cases "rs ! n") (simp_all add: jobs_map_upto_Suc)
  next
    case False
    then have lt: "i < n" using Suc.prems by simp
    have "i < length ds" "n < length ds" using Suc.prems lt by auto
    then have ne: "run_id (ds ! n) \<noteq> run_id (ds ! i)"
      using assms(1) False by (simp add: distinct_ids_nth)
    have IH: "jobs_map_upto ds rs n (run_id (ds ! i)) =
       (case rs ! i of Inl e \<Rightarrow> None | Inr js \<Rightarrow> Some js)"
      using Suc.IH Suc.prems lt by simp
    show ?thesis
      using IH ne by (cases "rs ! n") (simp_all add: jobs_map_upto_Suc)
  qed
qed

lemma jobs_map_of_entry:
  assumes "distinct (map run_id ds)" "i < length ds"
  shows "jobs_map_of ds rs (run_id (ds ! i)) =
     (case rs ! i of Inl e \<Rightarrow> None | Inr js \<Rightarrow> Some js)"
  using jobs_map_upto_entry [OF assms(1) le_refl assms(2)] by (simp add: jobs_map_of_upto)

lemma jobs_map_of_absent:
  assumes "k \<notin> run_id ` set ds"
  shows "jobs_map_of ds rs k = None"
proof -
  have "\<And>i. i < length ds \<Longrightarrow> run_id (ds ! i) \<noteq> k \<or> isl (rs ! i)"
    using assms by (metis image_eqI nth_mem)
  then show ?thesis
    unfolding jobs_map_of_upto by (rule jobs_map_upto_absent)
qed



lemma jobs_map_of_dom:
  assumes "distinct (map run_id ds)"
  shows "dom (jobs_map_of ds rs) = {run_id (ds ! i) | i. i < length ds \<and> \<not> isl (rs ! i)}"
proof (intro set_eqI iffI)
  fix k assume "k \<in> dom (jobs_map_of ds rs)"
  then obtain js where js: "jobs_map_of ds rs k = Some js" by auto
  then have "k \<in> run_id ` set ds"
    using jobs_map_of_absent [of k ds rs] by auto
  then obtain i where i: "i < length ds" "k = run_id (ds ! i)"
    by (auto simp add: in_set_conv_nth)
  with js jobs_map_of_entry [OF assms i(1), of rs] have "\<not> isl (rs ! i)"
    by (cases "rs ! i") auto
  with i show "k \<in> {run_id (ds ! i) | i. i < length ds \<and> \<not> isl (rs ! i)}" by auto
next
  fix k assume "k \<in> {run_id (ds ! i) | i. i < length ds \<and> \<not> isl (rs ! i)}"
  then obtain i where i: "i < length ds" "k = run_id (ds ! i)" "\<not> isl (rs ! i)" by auto
  with jobs_map_of_entry [OF assms i(1), of rs] show "k \<in> dom (jobs_map_of ds rs)"
    by (cases "rs ! i") auto
qed


section \<open>Properties of the report\<close>

lemma groupby_size_result:
  "groupby_size df = Inl e \<longleftrightarrow> df = [] \<and> e = KeyError"
  by (auto simp add: groupby_size_def Let_def)

lemma groupby_size_nonempty:
  "df \<noteq> [] \<Longrightarrow> \<exists>counts. groupby_size df = Inr counts"
  by (simp add: groupby_size_def Let_def)

lemma build_rows_length: "length (build_rows owner repo jm runs) = length runs"
  by (simp add: build_rows_def)

lemma process_repo_listing_failed:
  assumes "split_on CHR ''/'' owner_repo = [owner, repo]"
    and "snd (fetch_runs_for_repo (runs_get_json w) (api_base w) owner repo per_page max_pages) = Inl e"
  shows "process_repo w owner_repo per_page max_pages out_prefix = ([], Inl e)"
  using assms by (simp add: process_repo_def)

lemma process_repo_no_runs:
  assumes "split_on CHR ''/'' owner_repo = [owner, repo]"
    and "snd (fetch_runs_for_repo (runs_get_json w) (api_base w) owner repo per_page max_pages) = Inr []"
  shows "process_repo w owner_repo per_page max_pages out_prefix =
     ([Json_file (out_prefix @ ''.json'') [], Csv_file (out_prefix @ ''.csv'') []], Inl KeyError)"
  using assms by (simp add: process_repo_def Let_def build_rows_def groupby_size_def)

lemma process_repo_listing_ok:
  assumes "split_on CHR ''/'' owner_repo = [owner, repo]"
    and "snd (fetch_runs_for_repo (runs_get_json w) (api_base w) owner repo per_page max_pages) = Inr runs"
    and "runs \<noteq> []"
  shows "\<exists>counts. process_repo w owner_repo per_page max_pages out_prefix =
     ([Json_file (out_prefix @ ''.json'')
         (build_rows owner repo
            (jobs_map_of (detail_runs_of runs) (gather_jobs w owner repo (detail_runs_of runs))) runs),
       Csv_file (out_prefix @ ''.csv'')
         (map to_table_record (build_rows owner repo
            (jobs_map_of (detail_runs_of runs) (gather_jobs w owner repo (detail_runs_of runs))) runs)),
       Html_file (out_prefix @ ''.html'') counts
         (queued_head (map to_table_record (build_rows owner repo
            (jobs_map_of (detail_runs_of runs) (gather_jobs w owner repo (detail_runs_of runs))) runs)))],
      Inr ())"
proof -
  let ?rows = "build_rows owner repo
            (jobs_map_of (detail_runs_of runs) (gather_jobs w owner repo (detail_runs_of runs))) runs"
  have "map to_table_record ?rows \<noteq> []"
    using assms(3) by (simp add: build_rows_def)
  then obtain counts where "groupby_size (map to_table_record ?rows) = Inr counts"
    using groupby_size_nonempty by blast
  then show ?thesis
    using assms(1,2) by (simp add: process_repo_def Let_def)
qed

lemma split_on_no_sep: "c \<notin> set s \<Longrightarrow> split_on c s = [s]"
  by (induction s) auto

lemma split_on_length: "length (split_on c s) = Suc (length (filter (\<lambda>x. x = c) s))"
  by (induction s) (auto split: list.splits)

lemma split_on_append_sep:
  "c \<notin> set xs \<Longrightarrow> split_on c (xs @ c # ys) = xs # split_on c ys"
  by (induction xs) auto

lemma split_on_two:
  assumes "split_on c (xs @ c # ys) = [a, b]"
  shows "a = xs \<and> b = ys"
proof -
  have "length (split_on c (xs @ c # ys)) = 2" using assms by simp
  then have "length (filter (\<lambda>x. x = c) xs) + length (filter (\<lambda>x. x = c) ys) = 0"
    by (simp add: split_on_length)
  then have "c \<notin> set xs" "c \<notin> set ys"
    by (auto simp add: filter_empty_conv)
  then have "split_on c (xs @ c # ys) = [xs, ys]"
    by (simp add: split_on_append_sep split_on_no_sep)
  with assms show ?thesis by simp
qed

lemma process_repo_status_free_of_jobs:
  "snd (process_repo (w\<lparr>jobs_get_json := f\<rparr>) owner_repo per_page max_pages out_prefix) =
   snd (process_repo (w\<lparr>jobs_get_json := g\<rparr>) owner_repo per_page max_pages out_prefix)"
proof (cases "\<exists>owner repo. split_on CHR ''/'' owner_repo = [owner, repo]")
  case False
  then have "\<And>v. snd (process_repo v owner_repo per_page max_pages out_prefix) = Inl ValueError"
    by (auto simp add: process_repo_def split: list.splits)
  then show ?thesis by simp
next
  case True
  then obtain owner repo where sp: "split_on CHR ''/'' owner_repo = [owner, repo]" by blast
  show ?thesis
  proof (cases "snd (fetch_runs_for_repo (runs_get_json w) (api_base w) owner repo per_page max_pages)")
    case (Inl e)
    then show ?thesis
      using sp by (simp add: process_repo_listing_failed)
  next
    case (Inr runs)
    show ?thesis
    proof (cases "runs = []")
      case True
      then show ?thesis
        using sp Inr by (simp add: process_repo_no_runs)
    next
      case False
      have "\<And>h. snd (process_repo (w\<lparr>jobs_get_json := h\<rparr>) owner_repo per_page max_pages out_prefix) = Inr ()"
      proof -
        fix h
        have "snd (fetch_runs_for_repo (runs_get_json (w\<lparr>jobs_get_json := h\<rparr>)) (api_base (w\<lparr>jobs_get_json := h\<rparr>))
                 owner repo per_page max_pages) = Inr runs"
          using Inr by simp
        from process_repo_listing_ok [OF sp this False, of out_prefix]
        show "snd (process_repo (w\<lparr>jobs_get_json := h\<rparr>) owner_repo per_page max_pages out_prefix) = Inr ()"
          by auto
      qed
      then show ?thesis by simp
    qed
  qed
qed


lemma groupby_size_sum:
  assumes "groupby_size df = Inr counts"
  shows "sum_list (map snd counts) = length (List.map_filter group_key df)"
proof -
  let ?ks = "List.map_filter group_key df"
  have c: "counts = map (\<lambda>k. (k, count_list ?ks k)) (sort (remdups ?ks))"
    using assms by (auto simp add: groupby_size_def Let_def split: if_splits)
  have "sum_list (map snd counts) = sum_list (map (count_list ?ks) (sort (remdups ?ks)))"
    by (simp add: c comp_def)
  also have "\<dots> = sum (count_list ?ks) (set (sort (remdups ?ks)))"
    by (intro sum_list_distinct_conv_sum_set) simp
  also have "\<dots> = sum (count_list ?ks) (set ?ks)"
    by simp
  also have "\<dots> = length ?ks"
    by (intro sum_count_set) simp_all
  finally show ?thesis .
qed

section \<open>Properties of a row\<close>

lemma make_row_no_entry:
  "jm (run_id r) = None \<Longrightarrow>
   row_jobs (make_row owner repo jm r) = None \<and>
   row_queued_reason_inferred (make_row owner repo jm r) = infer_queued_reason r []"
  by (simp add: make_row_def Let_def)

lemma infer_queued_reason_no_jobs:
  "infer_queued_reason r [] = (if run_status r = Some ''queued'' then Some unknown_or_concurrency else None)"
  by (simp add: infer_queued_reason_def)

section \<open>Properties of the assembly\<close>

lemma build_rows_nth:
  "i < length runs \<Longrightarrow> build_rows owner repo jm runs ! i = make_row owner repo jm (runs ! i)"
  by (simp add: build_rows_def)

lemma build_rows_ids:
  "map row_workflow_run_id (build_rows owner repo jm runs) = map run_id runs"
  by (simp add: build_rows_def make_row_def Let_def comp_def)

lemma process_repo_json_rows:
  assumes "split_on CHR ''/'' owner_repo = [owner, repo]"
    and "snd (fetch_runs_for_repo (runs_get_json w) (api_base w) owner repo per_page max_pages) = Inr runs"
  shows "\<exists>rest. fst (process_repo w owner_repo per_page max_pages out_prefix) =
     Json_file (out_prefix @ ''.json'')
       (build_rows owner repo
          (jobs_map_of (detail_runs_of runs) (gather_jobs w owner repo (detail_runs_of runs))) runs) # rest"
proof (cases "runs = []")
  case True
  then show ?thesis
    using process_repo_no_runs [OF assms(1), of w per_page max_pages out_prefix] assms(2)
    by (simp add: build_rows_def)
next
  case False
  from process_repo_listing_ok [OF assms False, of out_prefix]
  show ?thesis by auto
qed

text \<open>
  C1. For every list of fetched runs and every jobs map (whatever the enrichment of
  each run gave: a job list, a failure or no fetch at all), the rows built are exactly
  one per run, in the order of the runs: the \<open>i\<close>-th row is the row of the \<open>i\<close>-th
  run and carries its identifier and status. A run without an entry in the jobs map
  gets a row without jobs whose reason depends on the run's status alone:
  \<open>unknown_or_concurrency\<close> when it is queued, nothing otherwise. These are the rows
  \<^verbatim>\<open>process_repo\<close> writes to the json file whenever the listing succeeded.
\<close>

theorem build_rows_one_per_run:
  "length (build_rows owner repo jm runs) = length runs \<and>
   map row_workflow_run_id (build_rows owner repo jm runs) = map run_id runs \<and>
   (\<forall>i < length runs.
      build_rows owner repo jm runs ! i = make_row owner repo jm (runs ! i) \<and>
      row_status (build_rows owner repo jm runs ! i) = run_status (runs ! i) \<and>
      (jm (run_id (runs ! i)) = None \<longrightarrow>
         row_jobs (build_rows owner repo jm runs ! i) = None \<and>
         row_queued_reason_inferred (build_rows owner repo jm runs ! i) =
           (if run_status (runs ! i) = Some ''queued'' then Some unknown_or_concurrency else None))) \<and>
   (split_on CHR ''/'' owner_repo = [owner, repo] \<and>
    snd (fetch_runs_for_repo (runs_get_json w) (api_base w) owner repo per_page max_pages) = Inr runs \<longrightarrow>
      (\<exists>rest. fst (process_repo w owner_repo per_page max_pages out_prefix) =
         Json_file (out_prefix @ ''.json'')
           (build_rows owner repo
              (jobs_map_of (detail_runs_of runs) (gather_jobs w owner repo (detail_runs_of runs))) runs) # rest))"
proof (intro conjI allI impI)
  show "length (build_rows owner repo jm runs) = length runs"
    by (rule build_rows_length)
  show "map row_workflow_run_id (build_rows owner repo jm runs) = map run_id runs"
    by (rule build_rows_ids)
next
  fix i assume i: "i < length runs"
  then show nth: "build_rows owner repo jm runs ! i = make_row owner repo jm (runs ! i)"
    by (rule build_rows_nth)
  show "row_status (build_rows owner repo jm runs ! i) = run_status (runs ! i)"
    by (simp add: nth make_row_def Let_def)
  assume none: "jm (run_id (runs ! i)) = None"
  then show "row_jobs (build_rows owner repo jm runs ! i) = None"
    by (simp add: nth make_row_no_entry)
  from none show "row_queued_reason_inferred (build_rows owner repo jm runs ! i) =
           (if run_status (runs ! i) = Some ''queued'' then Some unknown_or_concurrency else None)"
    by (simp add: nth make_row_no_entry infer_queued_reason_no_jobs)
next
  assume "split_on CHR ''/'' owner_repo = [owner, repo] \<and>
    snd (fetch_runs_for_repo (runs_get_json w) (api_base w) owner repo per_page max_pages) = Inr runs"
  then show "\<exists>rest. fst (process_repo w owner_repo per_page max_pages out_prefix) =
         Json_file (out_prefix @ ''.json'')
           (build_rows owner repo
              (jobs_map_of (detail_runs_of runs) (gather_jobs w owner repo (detail_runs_of runs))) runs) # rest"
    using process_repo_json_rows by blast
qed

theorem build_rows_one_per_run_witness:
  "length (build_rows ''o'' ''r'' Map.empty example_runs) = 3 \<and>
   map row_workflow_run_id (build_rows ''o'' ''r'' Map.empty example_runs) = [1, 2, 3] \<and>
   row_jobs (build_rows ''o'' ''r'' Map.empty example_runs ! 0) = None \<and>
   row_queued_reason_inferred (build_rows ''o'' ''r'' Map.empty example_runs ! 0) = Some unknown_or_concurrency \<and>
   row_queued_reason_inferred (build_rows ''o'' ''r'' Map.empty example_runs ! 2) = None"
proof -
  note t = build_rows_one_per_run [of "''o''" "''r''" Map.empty example_runs "''o/r''" example_world 100 3 "''report''"]
  note nth = t [THEN conjunct2, THEN conjunct2, THEN conjunct1, rule_format]
  have l: "0 < length example_runs" "2 < length example_runs"
    by (simp_all add: example_runs_def)
  have r: "example_runs ! 0 = mk_run 1 (Some ''queued'') None"
    "example_runs ! 2 = mk_run 3 (Some ''completed'') (Some ''success'')"
    by (simp_all add: example_runs_def)
  have "length (build_rows ''o'' ''r'' Map.empty example_runs) = 3"
    using t by (simp add: example_runs_def)
  moreover have "map row_workflow_run_id (build_rows ''o'' ''r'' Map.empty example_runs) = [1, 2, 3]"
    using t by (simp add: example_runs_def mk_run_def)
  moreover have "row_jobs (build_rows ''o'' ''r'' Map.empty example_runs ! 0) = None"
    using nth [OF l(1)] by auto
  moreover have "row_queued_reason_inferred (build_rows ''o'' ''r'' Map.empty example_runs ! 0) = Some unknown_or_concurrency"
    using nth [OF l(1)] by (auto simp add: r mk_run_def)
  moreover have "row_queued_reason_inferred (build_rows ''o'' ''r'' Map.empty example_runs ! 2) = None"
    using nth [OF l(2)] by (auto simp add: r mk_run_def)
  ultimately show ?thesis by simp
qed

section \<open>Properties of the enrichment\<close>

lemma gather_jobs_length: "length (gather_jobs w owner repo ds) = length ds"
  by (simp add: gather_jobs_def)














section \<open>Properties of the whole run\<close>

lemma main_status:
  "snd (main w owner repo out_prefix per_page max_pages) =
     (case snd (process_repo w (owner @ ''/'' @ repo) per_page max_pages out_prefix) of
        Inl e \<Rightarrow> 1 | Inr u \<Rightarrow> 0)"
  by (simp add: main_def split: prod.splits sum.splits)

lemma main_listing_failed:
  assumes "snd (fetch_runs_for_repo (runs_get_json w) (api_base w) owner repo per_page max_pages) = Inl e"
  shows "main w owner repo out_prefix per_page max_pages = ([], 1)"
proof (cases "\<exists>a b. split_on CHR ''/'' (owner @ ''/'' @ repo) = [a, b]")
  case True
  then obtain a b where ab: "split_on CHR ''/'' (owner @ CHR ''/'' # repo) = [a, b]" by auto
  then have "a = owner \<and> b = repo" by (rule split_on_two)
  with ab have "split_on CHR ''/'' (owner @ ''/'' @ repo) = [owner, repo]" by simp
  from process_repo_listing_failed [OF this assms]
  show ?thesis by (simp add: main_def)
next
  case False
  then have "process_repo w (owner @ ''/'' @ repo) per_page max_pages out_prefix = ([], Inl ValueError)"
    by (auto simp add: process_repo_def split: list.splits)
  then show ?thesis by (simp add: main_def)
qed

text \<open>
  C7. If the fetch of the run listing fails, \<^verbatim>\<open>main\<close> ends with a non-zero
  status and none of the three files is written. What the job fetches of the single
  runs return or raise never changes the exit status.
\<close>

theorem listing_failure_writes_nothing:
  "(snd (fetch_runs_for_repo (runs_get_json w) (api_base w) owner repo per_page max_pages) = Inl e \<longrightarrow>
      main w owner repo out_prefix per_page max_pages = ([], 1)) \<and>
   snd (main (w\<lparr>jobs_get_json := f\<rparr>) owner repo out_prefix per_page max_pages) =
   snd (main (w\<lparr>jobs_get_json := g\<rparr>) owner repo out_prefix per_page max_pages)"
proof (intro conjI impI)
  assume "snd (fetch_runs_for_repo (runs_get_json w) (api_base w) owner repo per_page max_pages) = Inl e"
  then show "main w owner repo out_prefix per_page max_pages = ([], 1)"
    by (rule main_listing_failed)
next
  show "snd (main (w\<lparr>jobs_get_json := f\<rparr>) owner repo out_prefix per_page max_pages) =
   snd (main (w\<lparr>jobs_get_json := g\<rparr>) owner repo out_prefix per_page max_pages)"
    unfolding main_status
    using process_repo_status_free_of_jobs
      [where w = w and f = f and g = g and owner_repo = "owner @ ''/'' @ repo"
         and per_page = per_page and max_pages = max_pages and out_prefix = out_prefix]
    by simp
qed

theorem listing_failure_writes_nothing_witness:
  "main listing_down_world ''o'' ''r'' ''report'' 100 3 = ([], 1) \<and>
   snd (main (example_world\<lparr>jobs_get_json := all_tasks_fail\<rparr>) ''o'' ''r'' ''report'' 100 3) =
   snd (main (example_world\<lparr>jobs_get_json := first_task_fails\<rparr>) ''o'' ''r'' ''report'' 100 3) \<and>
   snd (main example_world ''o'' ''r'' ''report'' 100 3) = 0"
proof -
  have h: "snd (fetch_runs_for_repo (runs_get_json listing_down_world) (api_base listing_down_world)
              ''o'' ''r'' 100 3) = Inl (HTTPStatusError 500 ''Internal Server Error'')"
    by code_simp
  have z: "snd (main example_world ''o'' ''r'' ''report'' 100 3) = 0"
    by code_simp
  show ?thesis
    using h z listing_failure_writes_nothing
      [where w = listing_down_world and owner = "''o''" and repo = "''r''" and per_page = 100
         and max_pages = 3 and e = "HTTPStatusError 500 ''Internal Server Error''"
         and out_prefix = "''report''"]
      listing_failure_writes_nothing
      [where w = example_world and owner = "''o''" and repo = "''r''" and per_page = 100
         and max_pages = 3 and out_prefix = "''report''" and f = all_tasks_fail and g = first_task_fails]
    by simp
qed

text \<open>
  C4. The claim: the counts of the summary table sum to the number of rows, rows
  without a conclusion included. The grouping drops every row whose status or
  conclusion is missing, so the counts sum to the number of rows that have both. For
  the three example runs, of which only the completed one has a conclusion, the
  summary counts one row of three; for no run at all the grouping raises.
\<close>

theorem summary_drops_missing_conclusion:
  "groupby_size (map to_table_record (build_rows ''o'' ''r'' Map.empty example_runs)) =
     Inr [((''completed'', ''success''), 1)] \<and>
   length (build_rows ''o'' ''r'' Map.empty example_runs) = 3 \<and>
   groupby_size (map to_table_record (build_rows ''o'' ''r'' Map.empty [])) = Inl KeyError"
  by code_simp

text \<open>
  C8, as the code has it. The claim as stated (a job list that is present but empty
  gives the count 0) fails: the row of a queued run whose fetch returned no job holds
  the empty list, and the record of the table holds no count.
\<close>

theorem jobs_count_of_empty_job_list:
  "row_jobs (make_row ''o'' ''r'' [1 \<mapsto> []] (mk_run 1 (Some ''queued'') None)) = Some [] \<and>
   col_jobs_count (to_table_record (make_row ''o'' ''r'' [1 \<mapsto> []] (mk_run 1 (Some ''queued'') None))) = None"
  by (simp add: to_table_record_def make_row_def Let_def mk_run_def)

text \<open>
  C8, amended. For every row, the job count of its table record is the number of jobs
  of the row when the job list is present and not empty, and is missing exactly when
  the jobs are absent or the list is empty; so for the row built for a run, the count
  is decided by the entry of the run in the jobs map.
\<close>

theorem jobs_count_of_row:
  "col_jobs_count (to_table_record r) =
     (case row_jobs r of None \<Rightarrow> None | Some js \<Rightarrow> if js = [] then None else Some (length js)) \<and>
   (col_jobs_count (to_table_record r) = None \<longleftrightarrow> row_jobs r = None \<or> row_jobs r = Some []) \<and>
   col_jobs_count (to_table_record (make_row owner repo jm run)) =
     (case jm (run_id run) of None \<Rightarrow> None | Some js \<Rightarrow> if js = [] then None else Some (length js))"
proof (intro conjI)
  show c: "col_jobs_count (to_table_record r) =
     (case row_jobs r of None \<Rightarrow> None | Some js \<Rightarrow> if js = [] then None else Some (length js))"
    by (simp add: to_table_record_def split: option.splits)
  show "col_jobs_count (to_table_record r) = None \<longleftrightarrow> row_jobs r = None \<or> row_jobs r = Some []"
    unfolding c by (simp split: option.splits)
  show "col_jobs_count (to_table_record (make_row owner repo jm run)) =
     (case jm (run_id run) of None \<Rightarrow> None | Some js \<Rightarrow> if js = [] then None else Some (length js))"
    by (simp add: to_table_record_def make_row_def Let_def split: option.splits)
qed

theorem jobs_count_of_row_witness:
  "col_jobs_count (to_table_record (make_row ''o'' ''r''
      [1 \<mapsto> [mk_job ''queued'' None, mk_job ''in_progress'' (Some ''r1'')]]
      (mk_run 1 (Some ''queued'') None))) = Some 2 \<and>
   col_jobs_count (to_table_record (make_row ''o'' ''r'' Map.empty (mk_run 1 (Some ''queued'') None))) = None"
  using jobs_count_of_row
      [of "make_row ''o'' ''r'' Map.empty (mk_run 1 (Some ''queued'') None)" "''o''" "''r''"
          "[1 \<mapsto> [mk_job ''queued'' None, mk_job ''in_progress'' (Some ''r1'')]]"
          "mk_run 1 (Some ''queued'') None"]
    jobs_count_of_row
      [of "make_row ''o'' ''r'' Map.empty (mk_run 1 (Some ''queued'') None)" "''o''" "''r''"
          Map.empty "mk_run 1 (Some ''queued'') None"]
  by (simp add: mk_run_def)


end
